theory Spec2Isabelle
  imports Complex_Main "HOL-Library.Multiset" "HOL-Library.Sublist"
begin

section \<open>Data model\<close>

text \<open>
  A chunk as the viewer reads it (\<^verbatim>\<open>PDFChunk\<close>): its identity, its text and the optional
  page number of its metadata. \<^verbatim>\<open>chunk.metadata?.page\<close> is \<open>None\<close> when the metadata or
  the field is absent. A missing \<^verbatim>\<open>content\<close> is read as the empty string by the source
  (\<^verbatim>\<open>c.content || ''\<close>), so the field is a plain string here. Page numbers and page
  counts are integers.
\<close>

record PDFChunk =
  chunk_id :: string
  content :: string
  page :: "int option"

text \<open>The page groups: the object \<^verbatim>\<open>grouped\<close>, as its entries in insertion order.\<close>

type_synonym page_groups = "(int \<times> PDFChunk list) list"

section \<open>JavaScript number arithmetic\<close>

text \<open>
  The estimation divides and multiplies JavaScript numbers, which are IEEE 754 doubles.
  A finite double is a rational; \<open>to_double\<close> rounds a rational to the nearest double
  (53 significant bits, ties to even). The exponent range is left out: the quotients of
  array indices and the page counts of a document stay far inside it.
\<close>

function bit_length :: "int \<Rightarrow> int" where
  "bit_length p = (if p \<le> 0 then 0 else bit_length (p div 2) + 1)"
  by pat_completeness auto
termination
  by (relation "measure nat") auto

declare bit_length.simps [simp del]

definition pow2 :: "int \<Rightarrow> rat" where
  "pow2 e = (if 0 \<le> e then 2 ^ nat e else 1 / 2 ^ nat (- e))"

definition round_half_even :: "rat \<Rightarrow> int" where
  "round_half_even x =
     (let f = \<lfloor>x\<rfloor>; r = x - of_int f
      in if r < 1 / 2 then f else if 1 / 2 < r then f + 1 else if even f then f else f + 1)"

text \<open>The exponent \<open>e\<close> of a positive rational: \<open>2 ^ e \<le> x < 2 ^ (e + 1)\<close>.\<close>

definition binade :: "rat \<Rightarrow> int" where
  "binade x =
     (let k = bit_length (fst (quotient_of x)) - bit_length (snd (quotient_of x))
      in if pow2 k \<le> x then k else k - 1)"

definition to_double :: "rat \<Rightarrow> rat" where
  "to_double x =
     (if x = 0 then 0
      else sgn x * of_int (round_half_even (\<bar>x\<bar> / pow2 (binade \<bar>x\<bar> - 52)))
             * pow2 (binade \<bar>x\<bar> - 52))"

definition js_div :: "rat \<Rightarrow> rat \<Rightarrow> rat" where
  "js_div a b = to_double (a / b)"

definition js_mul :: "rat \<Rightarrow> rat \<Rightarrow> rat" where
  "js_mul a b = to_double (a * b)"

section \<open>Page estimation and the page groups\<close>

text \<open>
  \<^verbatim>\<open>chunks.length > 0 && chunks.every(c => !c.metadata?.page || c.metadata.page === 0)\<close>
\<close>

definition page_is_zero :: "PDFChunk \<Rightarrow> bool" where
  "page_is_zero c = (page c = None \<or> page c = Some 0)"

definition allPagesZero :: "PDFChunk list \<Rightarrow> bool" where
  "allPagesZero chunks = (chunks \<noteq> [] \<and> list_all page_is_zero chunks)"

text \<open>\<^verbatim>\<open>chunk.metadata?.page || 0\<close>\<close>

definition metadata_page :: "PDFChunk \<Rightarrow> int" where
  "metadata_page c = (case page c of None \<Rightarrow> 0 | Some p \<Rightarrow> p)"

text \<open>
  The body of the \<^verbatim>\<open>forEach\<close> of \<^verbatim>\<open>chunksByPage\<close> up to the assignment of \<^verbatim>\<open>pageNum\<close>:
  the page the chunk at \<open>index\<close> is resolved to.
\<close>

definition pageNum :: "PDFChunk list \<Rightarrow> int \<Rightarrow> nat \<Rightarrow> PDFChunk \<Rightarrow> int" where
  "pageNum chunks documentTotalPages index chunk =
     (if allPagesZero chunks then
        (if documentTotalPages > 0 then
           min (\<lfloor>js_mul (js_div (of_nat index) (of_nat (length chunks)))
                      (of_int documentTotalPages)\<rfloor> + 1)
               documentTotalPages
         else \<lfloor>js_div (of_nat index) 3\<rfloor> + 1)
      else metadata_page chunk)"

text \<open>
  \<^verbatim>\<open>if (!grouped[pageNum]) grouped[pageNum] = []; grouped[pageNum].push(chunk)\<close>:
  a new key is appended to the entries, an existing one keeps its place.
\<close>

fun push_chunk :: "int \<Rightarrow> PDFChunk \<Rightarrow> page_groups \<Rightarrow> page_groups" where
  "push_chunk k c [] = [(k, [c])]"
| "push_chunk k c ((k', cs) # grouped) =
     (if k = k' then (k', cs @ [c]) # grouped else (k', cs) # push_chunk k c grouped)"

text \<open>The \<^verbatim>\<open>forEach\<close> loop, from index \<open>i\<close> on, for any way \<open>f\<close> of resolving a page.\<close>

fun group_loop :: "(nat \<Rightarrow> PDFChunk \<Rightarrow> int) \<Rightarrow> page_groups \<Rightarrow> nat \<Rightarrow> PDFChunk list \<Rightarrow> page_groups" where
  "group_loop f grouped i [] = grouped"
| "group_loop f grouped i (c # cs) = group_loop f (push_chunk (f i c) c grouped) (Suc i) cs"

definition chunksByPage :: "PDFChunk list \<Rightarrow> int \<Rightarrow> page_groups" where
  "chunksByPage chunks documentTotalPages =
     group_loop (pageNum chunks documentTotalPages) [] 0 chunks"

text \<open>\<^verbatim>\<open>chunksByPage[p] || []\<close>\<close>

definition page_chunks :: "page_groups \<Rightarrow> int \<Rightarrow> PDFChunk list" where
  "page_chunks grouped p = (case map_of grouped p of None \<Rightarrow> [] | Some cs \<Rightarrow> cs)"

text \<open>
  \<^verbatim>\<open>Object.entries(chunksByPage)\<close> lists the keys that are array indices (the integers from
  0 to \<open>2^32 - 2\<close>) in ascending order and then the other keys in insertion order.
\<close>

definition is_array_index :: "int \<Rightarrow> bool" where
  "is_array_index k = (0 \<le> k \<and> k < 4294967295)"

definition object_entries :: "page_groups \<Rightarrow> page_groups" where
  "object_entries grouped =
     sort_key fst (filter (\<lambda>e. is_array_index (fst e)) grouped)
       @ filter (\<lambda>e. \<not> is_array_index (fst e)) grouped"

text \<open>
  The page of a chunk as the handlers look it up: the key of the first entry with a chunk
  of that id (\<^verbatim>\<open>pageChunks.some(c => c.id === id)\<close>, then \<^verbatim>\<open>break\<close>).
\<close>

definition find_page :: "page_groups \<Rightarrow> string \<Rightarrow> int option" where
  "find_page grouped cid =
     map_option fst (find (\<lambda>e. list_ex (\<lambda>c. chunk_id c = cid) (snd e)) (object_entries grouped))"

text \<open>\<^verbatim>\<open>Math.max(...pages)\<close> of a non-empty array.\<close>

fun math_max :: "int list \<Rightarrow> int" where
  "math_max [] = 0"
| "math_max [k] = k"
| "math_max (k # ks) = max k (math_max ks)"

section \<open>Strings\<close>

text \<open>
  Strings are lists of characters; \<^verbatim>\<open>trim\<close> and \<^verbatim>\<open>toLowerCase\<close> are modelled on ASCII,
  \<^verbatim>\<open>includes\<close> is the test for a contiguous sublist.
\<close>

definition is_space :: "char \<Rightarrow> bool" where
  "is_space c = (c \<in> set [CHR '' '', CHR 0x09, CHR 0x0A, CHR 0x0B, CHR 0x0C, CHR 0x0D])"

definition trim :: "string \<Rightarrow> string" where
  "trim s = rev (dropWhile is_space (rev (dropWhile is_space s)))"

definition lower_char :: "char \<Rightarrow> char" where
  "lower_char c =
     (if 65 \<le> (of_char c :: nat) \<and> (of_char c :: nat) \<le> 90
      then char_of ((of_char c :: nat) + 32) else c)"

definition toLowerCase :: "string \<Rightarrow> string" where
  "toLowerCase s = map lower_char s"

definition string_includes :: "string \<Rightarrow> string \<Rightarrow> bool" where
  "string_includes s q = sublist q s"

text \<open>The remainder \<^verbatim>\<open>a % b\<close> of integers, for a positive \<open>b\<close>: it has the sign of \<open>a\<close>.\<close>

definition js_rem :: "int \<Rightarrow> int \<Rightarrow> int" where
  "js_rem a b = (if 0 \<le> a then a mod b else - ((- a) mod b))"

section \<open>The source viewer\<close>

text \<open>
  The state of \<^verbatim>\<open>SourceViewer\<close> together with the page number its parent holds for it
  (\<^verbatim>\<open>pdfCurrentPage\<close>, changed only through \<^verbatim>\<open>onPdfPageChange\<close>). The viewer is modelled
  with the props the application gives it and with no highlighted chunk
  (\<^verbatim>\<open>highlightedChunkId\<close> undefined). Timers are kept with their identifier and the time
  they fall due; \<open>clock\<close> is the time in milliseconds. \<open>trace\<close> records, in the order of
  execution, the writes to \<^verbatim>\<open>suppressObserverRef\<close>, the calls of \<^verbatim>\<open>onPdfPageChange\<close>, the
  calls of \<^verbatim>\<open>setTimeout\<close> and the scrolls.
\<close>

datatype view_mode = TextView | PdfView


datatype timer_action =
    ScrollToChunk "string option"
  | ReleaseObserver
  | PageEffectScroll string
  | ObserverReport int
  | ScrollToMatch string
  | RetryScrollToMatch string

datatype event =
    SuppressObserver bool
  | PageChange int
  | SetTimeout timer_action nat
  | ScrollIntoView string

record viewer =
  chunks :: "PDFChunk list"
  documentTotalPages :: int
  maxPdfPage :: int
  pdfCurrentPage :: int
  pdfViewerMode :: view_mode
  searchText :: string
  searchResults :: "PDFChunk list"
  currentSearchIndex :: int
  lastSearchQuery :: string
  isSearching :: bool
  suppressObserver :: bool
  clock :: nat
  timers :: "(nat \<times> nat \<times> timer_action) list"
  nextTimerId :: nat
  observerTimeoutId :: "nat option"
  trace :: "event list"

text \<open>The state of a freshly mounted viewer (the initial values of \<^verbatim>\<open>useState\<close>, \<^verbatim>\<open>useRef\<close>).\<close>

definition initial_viewer :: viewer where
  "initial_viewer =
     \<lparr>chunks = [], documentTotalPages = 0, maxPdfPage = 0, pdfCurrentPage = 1,
      pdfViewerMode = TextView, searchText = [], searchResults = [],
      currentSearchIndex = - 1, lastSearchQuery = [], isSearching = False,
      suppressObserver = False, clock = 0, timers = [], nextTimerId = 0,
      observerTimeoutId = None, trace = []\<rparr>"

subsection \<open>Derived values of a render\<close>

definition groups :: "viewer \<Rightarrow> page_groups" where
  "groups st = chunksByPage (chunks st) (documentTotalPages st)"

definition pdfPageNumbers :: "viewer \<Rightarrow> int list" where
  "pdfPageNumbers st = sort (map fst (groups st))"

text \<open>
  \<^verbatim>\<open>documentTotalPages > 0 ? documentTotalPages : (maxPdfPage || pdfPageNumbers.length)\<close>
\<close>

definition totalPages :: "viewer \<Rightarrow> int" where
  "totalPages st =
     (if documentTotalPages st > 0 then documentTotalPages st
      else if maxPdfPage st \<noteq> 0 then maxPdfPage st
      else int (length (pdfPageNumbers st)))"

definition getPaginatedChunks :: "viewer \<Rightarrow> PDFChunk list" where
  "getPaginatedChunks st = page_chunks (groups st) (pdfCurrentPage st)"

text \<open>
  The text view renders the chunks of the current page inside the scroll container; the
  PDF view renders neither.
\<close>

definition container_exists :: "viewer \<Rightarrow> bool" where
  "container_exists st = (pdfViewerMode st = TextView)"

definition element_exists :: "viewer \<Rightarrow> string \<Rightarrow> bool" where
  "element_exists st cid =
     (pdfViewerMode st = TextView \<and> list_ex (\<lambda>c. chunk_id c = cid) (getPaginatedChunks st))"

subsection \<open>Primitive effects\<close>

definition log :: "event \<Rightarrow> viewer \<Rightarrow> viewer" where
  "log e st = st\<lparr>trace := trace st @ [e]\<rparr>"

definition set_suppress :: "bool \<Rightarrow> viewer \<Rightarrow> viewer" where
  "set_suppress b st = log (SuppressObserver b) (st\<lparr>suppressObserver := b\<rparr>)"

definition setTimeout :: "timer_action \<Rightarrow> nat \<Rightarrow> viewer \<Rightarrow> viewer" where
  "setTimeout a delay st =
     log (SetTimeout a delay)
       (st\<lparr>timers := timers st @ [(nextTimerId st, clock st + delay, a)],
           nextTimerId := Suc (nextTimerId st)\<rparr>)"

definition clearTimeout :: "nat \<Rightarrow> viewer \<Rightarrow> viewer" where
  "clearTimeout i st = st\<lparr>timers := filter (\<lambda>t. fst t \<noteq> i) (timers st)\<rparr>"

text \<open>
  \<^verbatim>\<open>onPdfPageChange(page)\<close>: the parent stores the page (\<^verbatim>\<open>setPdfCurrentPage\<close>); what it
  forwards to the external window is part of the bridge below.
\<close>

definition onPdfPageChange :: "int \<Rightarrow> viewer \<Rightarrow> viewer" where
  "onPdfPageChange p st = log (PageChange p) (st\<lparr>pdfCurrentPage := p\<rparr>)"

definition scrollIntoView :: "string \<Rightarrow> viewer \<Rightarrow> viewer" where
  "scrollIntoView cid st = (if element_exists st cid then log (ScrollIntoView cid) st else st)"

subsection \<open>Effects that run after a render\<close>

text \<open>
  The effect that maintains \<^verbatim>\<open>maxPdfPage\<close> (dependencies \<^verbatim>\<open>chunksByPage\<close>,
  \<^verbatim>\<open>documentTotalPages\<close>).
\<close>

definition maxPdfPage_effect :: "viewer \<Rightarrow> viewer" where
  "maxPdfPage_effect st =
     (let pages = map fst (groups st);
          maxPage = (if pages \<noteq> [] then math_max pages else 0)
      in if maxPage > 0 then st\<lparr>maxPdfPage := maxPage\<rparr>
         else if documentTotalPages st > 0 then st\<lparr>maxPdfPage := documentTotalPages st\<rparr>
         else st)"

text \<open>
  The clean-up of the observer effect: \<^verbatim>\<open>if (timeoutId) clearTimeout(timeoutId)\<close>; the
  effect that follows starts with a fresh \<^verbatim>\<open>timeoutId\<close>.
\<close>

definition observer_cleanup :: "viewer \<Rightarrow> viewer" where
  "observer_cleanup st =
     (case observerTimeoutId st of
        None \<Rightarrow> st
      | Some i \<Rightarrow> (clearTimeout i st)\<lparr>observerTimeoutId := None\<rparr>)"

text \<open>
  The effect that scrolls the text view to the first chunk of the current page
  (dependencies \<^verbatim>\<open>pdfCurrentPage\<close>, \<^verbatim>\<open>pdfViewerMode\<close>, \<^verbatim>\<open>chunksByPage\<close>, \<^verbatim>\<open>chunks.length\<close>).
\<close>

definition page_effect :: "viewer \<Rightarrow> viewer" where
  "page_effect st =
     (if pdfViewerMode st = TextView \<and> pdfCurrentPage st > 0 \<and> chunks st \<noteq> [] then
        (case getPaginatedChunks st of
           [] \<Rightarrow> st
         | firstChunk # _ \<Rightarrow>
             setTimeout (PageEffectScroll (chunk_id firstChunk)) 50 (set_suppress True st))
      else st)"

text \<open>
  After a handler has run, the component renders again and the effects whose dependencies
  changed since the render \<open>before\<close> run in the order of their declaration, the clean-ups
  first. The observer effect also depends on the page and the mode.
\<close>

definition run_effects :: "viewer \<Rightarrow> viewer \<Rightarrow> viewer" where
  "run_effects before st =
     (let data_changed = (chunks st \<noteq> chunks before
                          \<or> documentTotalPages st \<noteq> documentTotalPages before);
          view_changed = (pdfCurrentPage st \<noteq> pdfCurrentPage before
                          \<or> pdfViewerMode st \<noteq> pdfViewerMode before);
          st1 = (if data_changed \<or> view_changed then observer_cleanup st else st);
          st2 = (if data_changed then maxPdfPage_effect st1 else st1)
      in if data_changed \<or> view_changed then page_effect st2 else st2)"

subsection \<open>Loading a document\<close>

text \<open>
  The two results of \<^verbatim>\<open>loadChunks\<close>: the declared page count of the document
  (\<^verbatim>\<open>setDocumentTotalPages(document.totalPages || 0)\<close>) and its chunks (\<^verbatim>\<open>setChunks\<close>), each
  followed by the render it causes. One load sets the count before its chunks and neither
  setter clears the other's state, so a count arrives over chunks that are already loaded
  when the selected document changes while the viewer is mounted: the load of the later
  selection then resolves after the earlier one has filled the list and ended the loading
  screen.
\<close>

definition setDocumentTotalPages :: "int \<Rightarrow> viewer \<Rightarrow> viewer" where
  "setDocumentTotalPages n st = run_effects st (st\<lparr>documentTotalPages := n\<rparr>)"

definition setChunks :: "PDFChunk list \<Rightarrow> viewer \<Rightarrow> viewer" where
  "setChunks cs st = run_effects st (st\<lparr>chunks := cs\<rparr>)"

subsection \<open>Page navigation\<close>



text \<open>\<^verbatim>\<open>scrollToPageFirstChunk\<close> reads the groups of the render of the handler.\<close>

definition first_chunk_id :: "viewer \<Rightarrow> int \<Rightarrow> string option" where
  "first_chunk_id st p = (case page_chunks (groups st) p of [] \<Rightarrow> None | c # _ \<Rightarrow> Some (chunk_id c))"

definition navigate_to :: "int \<Rightarrow> viewer \<Rightarrow> viewer" where
  "navigate_to target st =
     setTimeout ReleaseObserver 400
       (setTimeout (ScrollToChunk (first_chunk_id st target)) 0
          (onPdfPageChange target (set_suppress True st)))"



text \<open>
  The page number input: \<open>v\<close> is the integer \<^verbatim>\<open>parseInt\<close> reads from the field.
\<close>

definition page_input :: "viewer \<Rightarrow> int \<Rightarrow> int" where
  "page_input st v = min (max 1 v) (max 1 (totalPages st))"

definition handlePageInput :: "int \<Rightarrow> viewer \<Rightarrow> viewer" where
  "handlePageInput v st = onPdfPageChange (page_input st v) st"



definition type_page :: "int \<Rightarrow> viewer \<Rightarrow> viewer" where
  "type_page v st = run_effects st (handlePageInput v st)"

subsection \<open>The intersection observer\<close>




subsection \<open>Search\<close>

text \<open>
  \<^verbatim>\<open>targetPage\<close> of \<^verbatim>\<open>navigateToSearchResult\<close>: 1 unless a group holds a chunk with the id
  of the match.
\<close>

definition targetPage :: "viewer \<Rightarrow> PDFChunk \<Rightarrow> int" where
  "targetPage st match =
     (case find_page (groups st) (chunk_id match) of None \<Rightarrow> 1 | Some p \<Rightarrow> p)"

definition navigateToSearchResult :: "PDFChunk \<Rightarrow> viewer \<Rightarrow> viewer" where
  "navigateToSearchResult match st =
     setTimeout (ScrollToMatch (chunk_id match)) 400
       (onPdfPageChange (targetPage st match) (set_suppress True st))"

definition matches_query :: "string \<Rightarrow> PDFChunk \<Rightarrow> bool" where
  "matches_query query c = string_includes (toLowerCase (content c)) query"

text \<open>
  \<^verbatim>\<open>handleSearchSubmit\<close>. When the match list is not empty the cursor is one of its
  indices in every state the handlers produce, so \<^verbatim>\<open>nextIndex\<close> is an index of the list;
  \<^verbatim>\<open>isSearching\<close> is set at the start and reset in the \<^verbatim>\<open>finally\<close> block, which leaves
  it reset.
\<close>

definition handleSearchSubmit :: "viewer \<Rightarrow> viewer" where
  "handleSearchSubmit st =
     (let query = toLowerCase (trim (searchText st))
      in if query = [] \<or> chunks st = [] then st
         else if query \<noteq> lastSearchQuery st then
           (let matches = filter (matches_query query) (chunks st);
                st1 = st\<lparr>searchResults := matches, currentSearchIndex := 0,
                        lastSearchQuery := query, isSearching := False\<rparr>
            in case matches of
                 [] \<Rightarrow> st1
               | m # _ \<Rightarrow> navigateToSearchResult m st1)
         else if searchResults st \<noteq> [] then
           (let nextIndex = js_rem (currentSearchIndex st + 1) (int (length (searchResults st)))
            in navigateToSearchResult (searchResults st ! nat nextIndex)
                 (st\<lparr>currentSearchIndex := nextIndex, isSearching := False\<rparr>))
         else st\<lparr>isSearching := False\<rparr>)"



subsection \<open>Timers\<close>

text \<open>\<^verbatim>\<open>scrollToMatch\<close> of \<^verbatim>\<open>navigateToSearchResult\<close>.\<close>

definition scrollToMatch :: "string \<Rightarrow> viewer \<Rightarrow> viewer" where
  "scrollToMatch cid st =
     (if element_exists st cid \<and> container_exists st then
        setTimeout ReleaseObserver 500 (log (ScrollIntoView cid) st)
      else if element_exists st cid then
        set_suppress False (log (ScrollIntoView cid) st)
      else st)"













section \<open>The external window\<close>

text \<open>
  The part of \<^verbatim>\<open>handleReferenceClick\<close> that owns the window: it starts where the keywords
  to highlight (\<^verbatim>\<open>uniqueKeywords\<close>) and the core phrase (\<^verbatim>\<open>coreSearchText\<close>) have been
  extracted from the event. Windows are handles; what the browser answers (whether a
  window is closed, whether \<^verbatim>\<open>postMessage\<close> throws, what \<^verbatim>\<open>window.open\<close> and
  \<^verbatim>\<open>window.confirm\<close> return) is the environment.
\<close>

record reference_detail =
  filename :: string
  ref_page :: "int option"
  title :: string
  chunkContent :: string
  uniqueKeywords :: "string list"
  coreSearchText :: "string option"

record changePage_message =
  msg_page :: int
  msg_highlight :: "string list option"
  msg_searchText :: "string option"

record viewer_params =
  param_file :: string
  param_page :: int
  param_title :: string
  param_highlight :: "string list"
  param_searchText :: "string option"

record environment =
  closed :: "nat \<Rightarrow> bool"
  postMessage_throws :: bool
  open_result :: "nat option"
  confirm_result :: bool

datatype window_effect =
    PostMessage nat changePage_message
  | Focus nat
  | CheckDelivered nat
  | WindowOpen viewer_params
  | PollClosed nat
  | Confirm
  | LocationChange viewer_params

text \<open>\<^verbatim>\<open>coreSearchText || (chunkContent ? chunkContent.substring(0, 30) : undefined)\<close>\<close>

definition search_snippet :: "reference_detail \<Rightarrow> string option" where
  "search_snippet d =
     (case coreSearchText d of
        Some s \<Rightarrow> if s \<noteq> [] then Some s
                  else if chunkContent d \<noteq> [] then Some (take 30 (chunkContent d)) else None
      | None \<Rightarrow> if chunkContent d \<noteq> [] then Some (take 30 (chunkContent d)) else None)"

definition changePage :: "reference_detail \<Rightarrow> int \<Rightarrow> changePage_message" where
  "changePage d p =
     \<lparr>msg_page = p,
      msg_highlight = (if uniqueKeywords d \<noteq> [] then Some (uniqueKeywords d) else None),
      msg_searchText = search_snippet d\<rparr>"

definition viewer_url :: "reference_detail \<Rightarrow> int \<Rightarrow> viewer_params" where
  "viewer_url d p =
     \<lparr>param_file = filename d, param_page = p,
      param_title = (if title d \<noteq> [] then title d else filename d),
      param_highlight = uniqueKeywords d,
      param_searchText = search_snippet d\<rparr>"

text \<open>The branch that opens a window (\<^verbatim>\<open>window.open\<close> and what follows it).\<close>

definition open_viewer :: "environment \<Rightarrow> reference_detail \<Rightarrow> int \<Rightarrow> nat option
    \<Rightarrow> nat option \<times> window_effect list" where
  "open_viewer env d p ref =
     (case open_result env of
        Some newWindow \<Rightarrow> (Some newWindow, [WindowOpen (viewer_url d p), PollClosed newWindow])
      | None \<Rightarrow>
          (ref, [WindowOpen (viewer_url d p), Confirm]
                 @ (if confirm_result env then [LocationChange (viewer_url d p)] else [])))"

text \<open>
  \<^verbatim>\<open>handleReferenceClick\<close> from the stored reference \<^verbatim>\<open>pdfViewerWindowRef.current\<close> to the
  new one, with what it does to the windows.
\<close>

definition handleReferenceClick :: "environment \<Rightarrow> reference_detail \<Rightarrow> nat option
    \<Rightarrow> nat option \<times> window_effect list" where
  "handleReferenceClick env d ref =
     (case ref_page d of
        None \<Rightarrow> (ref, [])
      | Some p \<Rightarrow>
          if filename d \<noteq> [] \<and> p \<noteq> 0 \<and> p > 0 then
            (case ref of
               Some existingWindow \<Rightarrow>
                 if \<not> closed env existingWindow then
                   (if postMessage_throws env then open_viewer env d p None
                    else (ref, [PostMessage existingWindow (changePage d p),
                                Focus existingWindow, CheckDelivered existingWindow]))
                 else open_viewer env d p ref
             | None \<Rightarrow> open_viewer env d p ref)
          else (ref, []))"

text \<open>The number of windows a list of effects asks the browser to open.\<close>

definition windows_opened :: "window_effect list \<Rightarrow> nat" where
  "windows_opened es = length (filter (\<lambda>e. case e of WindowOpen _ \<Rightarrow> True | _ \<Rightarrow> False) es)"

definition messages_to :: "nat \<Rightarrow> window_effect list \<Rightarrow> changePage_message list" where
  "messages_to w es = concat (map (\<lambda>e. case e of PostMessage v m \<Rightarrow> if v = w then [m] else [] | _ \<Rightarrow> []) es)"

section \<open>Example documents\<close>

definition plain_chunk :: "string \<Rightarrow> int option \<Rightarrow> PDFChunk" where
  "plain_chunk i p = \<lparr>chunk_id = i, content = ''text'', page = p\<rparr>"

definition ten_chunks :: "PDFChunk list" where
  "ten_chunks = map (\<lambda>i. plain_chunk i None)
     [''a'', ''b'', ''c'', ''d'', ''e'', ''f'', ''g'', ''h'', ''i'', ''j'']"

text \<open>A document whose second chunk has no page while the first has one.\<close>

definition two_chunks :: "PDFChunk list" where
  "two_chunks = [plain_chunk ''a'' (Some 5), plain_chunk ''b'' None]"

text \<open>A document with chunks on the pages 2 and 10 only, loaded with 5 declared pages.\<close>

definition far_chunks :: "PDFChunk list" where
  "far_chunks = [plain_chunk ''a'' (Some 2), plain_chunk ''b'' (Some 10)]"

text \<open>
  Nine chunks without page metadata, loaded into a fresh viewer whose document declares
  no page count; the user then types page 3.
\<close>

definition nine_chunks :: "PDFChunk list" where
  "nine_chunks = map (\<lambda>i. plain_chunk i None)
     [''a'', ''b'', ''c'', ''d'', ''e'', ''f'', ''g'', ''h'', ''i'']"

definition nine_viewer :: viewer where
  "nine_viewer = type_page 3 (setChunks nine_chunks initial_viewer)"





text \<open>
  A reference click for page 7 of a file, and a browser in which window 1 is open and
  lets a new window 2 be opened.
\<close>

definition page7_click :: reference_detail where
  "page7_click =
     \<lparr>filename = ''guide.pdf'', ref_page = Some 7, title = ''Guide'', chunkContent = [],
      uniqueKeywords = [], coreSearchText = None\<rparr>"

definition open_browser :: environment where
  "open_browser =
     \<lparr>closed = (\<lambda>w. w \<noteq> 1), postMessage_throws = False, open_result = Some 2,
      confirm_result = False\<rparr>"





section \<open>Properties of the arithmetic and of the grouping loop\<close>

lemma pow2_pos: "0 < pow2 e"
  by (simp add: pow2_def)

lemma round_half_even_nonneg: "0 \<le> x \<Longrightarrow> 0 \<le> round_half_even x"
  by (simp add: round_half_even_def Let_def)

lemma to_double_nonneg: "0 \<le> x \<Longrightarrow> 0 \<le> to_double x"
proof -
  assume x: "0 \<le> x"
  have "0 \<le> \<bar>x\<bar> / pow2 (binade \<bar>x\<bar> - 52)"
    using pow2_pos [of "binade \<bar>x\<bar> - 52"] by simp
  then have "0 \<le> round_half_even (\<bar>x\<bar> / pow2 (binade \<bar>x\<bar> - 52))"
    by (rule round_half_even_nonneg)
  then show ?thesis
    using x pow2_pos [of "binade \<bar>x\<bar> - 52"] by (simp add: to_double_def sgn_if)
qed

lemma js_div_nonneg: "0 \<le> a \<Longrightarrow> 0 \<le> b \<Longrightarrow> 0 \<le> js_div a b"
  by (simp add: js_div_def to_double_nonneg)

lemma js_mul_nonneg: "0 \<le> a \<Longrightarrow> 0 \<le> b \<Longrightarrow> 0 \<le> js_mul a b"
  by (simp add: js_mul_def to_double_nonneg)

text \<open>The rounding is that of doubles: facts about \<open>bit_length\<close>, \<open>pow2\<close> and \<open>binade\<close>.\<close>

lemma bit_length_bounds:
  "0 < p \<Longrightarrow> 0 < bit_length p \<and> 2 ^ nat (bit_length p - 1) \<le> p \<and> p < 2 ^ nat (bit_length p)"
proof (induction p rule: bit_length.induct)
  case (1 p)
  show ?case
  proof (cases "p div 2 = 0")
    case True
    with "1.prems" have "p = 1" by linarith
    then show ?thesis
      by (simp add: bit_length.simps [of 1] bit_length.simps [of 0])
  next
    case False
    with "1.prems" have pos: "0 < p div 2" by linarith
    let ?n = "bit_length (p div 2)"
    have ih: "0 < ?n \<and> 2 ^ nat (?n - 1) \<le> p div 2 \<and> p div 2 < 2 ^ nat ?n"
      using "1.IH" "1.prems" pos by simp
    have bl: "bit_length p = ?n + 1"
      using "1.prems" by (simp add: bit_length.simps [of p])
    have n: "nat ?n = Suc (nat (?n - 1))"
      using ih by arith
    have "2 * (p div 2) \<le> p" "p < 2 * (p div 2) + 2"
      by linarith+
    moreover have "2 * 2 ^ nat (?n - 1) \<le> 2 * (p div 2)"
      using ih by simp
    moreover have "2 * (p div 2) + 2 \<le> 2 * 2 ^ nat ?n"
      using ih by simp
    ultimately have "2 ^ nat ?n \<le> p \<and> p < 2 ^ Suc (nat ?n)"
      using n by simp
    moreover have "nat (bit_length p - 1) = nat ?n" "nat (bit_length p) = Suc (nat ?n)"
      using ih bl by arith+
    ultimately show ?thesis
      using ih bl by simp
  qed
qed

lemma pow2_power_int: "pow2 e = power_int 2 e"
  by (simp add: pow2_def power_int_def field_simps)

lemma pow2_add: "pow2 (a + b) = pow2 a * pow2 b"
  by (simp add: pow2_power_int power_int_add)

lemma pow2_nat: "pow2 (int n) = 2 ^ n"
  by (simp add: pow2_def)

lemma pow2_mono: "a \<le> b \<Longrightarrow> pow2 a \<le> pow2 b"
  by (simp add: pow2_power_int power_int_increasing)


lemma pow2_diff: "pow2 (a - b) = pow2 a / pow2 b"
  by (simp add: pow2_power_int power_int_diff)

lemma binade_bounds:
  assumes "0 < x"
  shows "pow2 (binade x) \<le> x \<and> x < pow2 (binade x + 1)"
proof -
  obtain p q where pq: "quotient_of x = (p, q)" by (cases "quotient_of x")
  have q: "0 < q" using pq by (rule quotient_of_denom_pos)
  have x: "x = of_int p / of_int q" using pq by (rule quotient_of_div)
  have p: "0 < p"
    using assms q x by (simp add: zero_less_divide_iff)
  let ?bp = "bit_length p" and ?bq = "bit_length q"
  let ?k = "?bp - ?bq"
  have bp: "0 < ?bp" "2 ^ nat (?bp - 1) \<le> p" "p < 2 ^ nat ?bp"
    using bit_length_bounds [OF p] by simp_all
  have bq: "0 < ?bq" "2 ^ nat (?bq - 1) \<le> q" "q < 2 ^ nat ?bq"
    using bit_length_bounds [OF q] by simp_all
  have P1: "pow2 (?bp - 1) \<le> of_int p"
  proof -
    have "pow2 (?bp - 1) = of_int (2 ^ nat (?bp - 1))"
      using bp(1) by (simp add: pow2_def)
    also have "\<dots> \<le> of_int p"
      using bp(2) by (simp only: of_int_le_iff)
    finally show ?thesis .
  qed
  have P2: "of_int p < pow2 ?bp"
  proof -
    have "(of_int p :: rat) < of_int (2 ^ nat ?bp)"
      using bp(3) by (simp only: of_int_less_iff)
    also have "\<dots> = pow2 ?bp"
      using bp(1) by (simp add: pow2_def)
    finally show ?thesis .
  qed
  have Q1: "pow2 (?bq - 1) \<le> of_int q"
  proof -
    have "pow2 (?bq - 1) = of_int (2 ^ nat (?bq - 1))"
      using bq(1) by (simp add: pow2_def)
    also have "\<dots> \<le> of_int q"
      using bq(2) by (simp only: of_int_le_iff)
    finally show ?thesis .
  qed
  have Q2: "of_int q < pow2 ?bq"
  proof -
    have "(of_int q :: rat) < of_int (2 ^ nat ?bq)"
      using bq(3) by (simp only: of_int_less_iff)
    also have "\<dots> = pow2 ?bq"
      using bq(1) by (simp add: pow2_def)
    finally show ?thesis .
  qed
  have qpos: "(0::rat) < of_int q" using q by simp
  have ppos: "(0::rat) < of_int p" using p by simp
  have low: "pow2 (?k - 1) \<le> x"
  proof -
    have "pow2 (?k - 1) = pow2 (?bp - 1) / pow2 ?bq"
      using pow2_diff [of "?bp - 1" ?bq] by (simp add: algebra_simps)
    also have "\<dots> \<le> of_int p / of_int q"
      using P1 Q2 qpos pow2_pos [of "?bp - 1"] by (intro frac_le) simp_all
    finally show ?thesis by (simp add: x)
  qed
  have high: "x < pow2 (?k + 1)"
  proof -
    have "of_int p / of_int q < pow2 ?bp / pow2 (?bq - 1)"
      using P2 Q1 ppos pow2_pos [of "?bq - 1"] by (intro frac_less) simp_all
    also have "\<dots> = pow2 (?k + 1)"
      using pow2_diff [of ?bp "?bq - 1"] by (simp add: algebra_simps)
    finally show ?thesis by (simp add: x)
  qed
  show ?thesis
  proof (cases "pow2 ?k \<le> x")
    case True
    then show ?thesis using high by (simp add: binade_def pq)
  next
    case False
    then show ?thesis using low by (simp add: binade_def pq)
  qed
qed

lemma round_half_even_error: "\<bar>of_int (round_half_even m) - m\<bar> \<le> 1 / 2"
proof -
  define r where "r = m - of_int \<lfloor>m\<rfloor>"
  have r: "0 \<le> r" "r < 1"
    unfolding r_def by linarith+
  have m: "m = of_int \<lfloor>m\<rfloor> + r"
    by (simp add: r_def)
  consider "r < 1 / 2" | "1 / 2 < r" | "r = 1 / 2" by linarith
  then show ?thesis
  proof cases
    case 1
    then have "round_half_even m = \<lfloor>m\<rfloor>"
      by (simp add: round_half_even_def Let_def r_def)
    then show ?thesis using 1 r by (simp add: r_def)
  next
    case 2
    then have "round_half_even m = \<lfloor>m\<rfloor> + 1"
      by (simp add: round_half_even_def Let_def r_def)
    then have "of_int (round_half_even m) - m = 1 - r"
      by (simp add: r_def)
    then show ?thesis using 2 r by simp
  next
    case 3
    then have "round_half_even m = \<lfloor>m\<rfloor> \<or> round_half_even m = \<lfloor>m\<rfloor> + 1"
      by (simp add: round_half_even_def Let_def r_def)
    then have "of_int (round_half_even m) - m = - r \<or> of_int (round_half_even m) - m = 1 - r"
      by (auto simp: r_def)
    then show ?thesis using 3 by auto
  qed
qed

lemma round_half_even_mono: "of_int n \<le> m \<Longrightarrow> n \<le> round_half_even m"
proof -
  assume "of_int n \<le> m"
  then have "n \<le> \<lfloor>m\<rfloor>" by (simp add: le_floor_iff)
  then show ?thesis by (simp add: round_half_even_def Let_def)
qed

lemma round_half_even_upper: "m \<le> of_int n \<Longrightarrow> round_half_even m \<le> n"
proof -
  assume le: "m \<le> of_int n"
  show ?thesis
  proof (cases "m = of_int n")
    case True
    then show ?thesis by (simp add: round_half_even_def Let_def)
  next
    case False
    with le have "m < of_int n" by simp
    then have "\<lfloor>m\<rfloor> < n" by (simp add: floor_less_iff)
    then show ?thesis by (auto simp: round_half_even_def Let_def)
  qed
qed

text \<open>
  \<open>to_double\<close> rounds to 53 significant bits: the result is an integer between \<open>2^52\<close>
  and \<open>2^53\<close> times a power of two, and it differs from \<open>x\<close> by at most half a unit in
  the last place.
\<close>

lemma to_double_nearest:
  assumes "0 < x"
  shows "\<exists>m. 2 ^ 52 \<le> m \<and> m \<le> 2 ^ 53 \<and> to_double x = of_int m * pow2 (binade x - 52)
           \<and> \<bar>to_double x - x\<bar> \<le> pow2 (binade x - 52) / 2"
proof -
  let ?e = "binade x - 52"
  let ?m = "x / pow2 ?e"
  let ?r = "round_half_even ?m"
  have e: "0 < pow2 ?e" by (rule pow2_pos)
  have td: "to_double x = of_int ?r * pow2 ?e"
    using assms by (simp add: to_double_def)
  have b: "pow2 (binade x) \<le> x" "x < pow2 (binade x + 1)"
    using binade_bounds [OF assms] by simp_all
  have "pow2 (binade x) = 2 ^ 52 * pow2 ?e"
    using pow2_add [of 52 ?e] pow2_nat [of 52] by simp
  then have low: "2 ^ 52 \<le> ?m"
    using b(1) e by (simp add: pos_le_divide_eq)
  have "pow2 (binade x + 1) = 2 ^ 53 * pow2 ?e"
    using pow2_add [of 53 ?e] pow2_nat [of 53] by (simp add: add.commute)
  then have high: "?m < 2 ^ 53"
    using b(2) e by (simp add: pos_divide_less_eq)
  have r1: "2 ^ 52 \<le> ?r"
    using low by (intro round_half_even_mono) simp
  have r2: "?r \<le> 2 ^ 53"
    using high by (intro round_half_even_upper) simp
  have "to_double x - x = (of_int ?r - ?m) * pow2 ?e"
    using e by (simp add: td algebra_simps)
  then have "\<bar>to_double x - x\<bar> = \<bar>of_int ?r - ?m\<bar> * pow2 ?e"
    using e by (simp add: abs_mult)
  also have "\<dots> \<le> 1 / 2 * pow2 ?e"
    using round_half_even_error [of ?m] e by (intro mult_right_mono) simp_all
  finally have err: "\<bar>to_double x - x\<bar> \<le> pow2 ?e / 2" by simp
  show ?thesis
    using r1 r2 td err by blast
qed

lemma pow2_strict: "pow2 a < pow2 b \<Longrightarrow> a < b"
  using pow2_mono [of b a] by (cases "a < b") simp_all

lemma binade_less: "0 < x \<Longrightarrow> x < pow2 n \<Longrightarrow> binade x < n"
proof -
  assume "0 < x" and "x < pow2 n"
  then have "pow2 (binade x) < pow2 n"
    using binade_bounds [of x] by simp
  then show ?thesis by (rule pow2_strict)
qed




lemma to_double_error:
  assumes "0 < x" and "x < pow2 n"
  shows "\<bar>to_double x - x\<bar> \<le> pow2 (n - 54)"
proof -
  have "binade x < n" using assms by (rule binade_less)
  then have "pow2 (binade x - 52) \<le> pow2 (n - 53)"
    by (intro pow2_mono) simp
  moreover have "pow2 (n - 53) = 2 * pow2 (n - 54)"
    using pow2_add [of 1 "n - 54"] pow2_nat [of 1] by simp
  moreover have "\<bar>to_double x - x\<bar> \<le> pow2 (binade x - 52) / 2"
    using to_double_nearest [OF assms(1)] by blast
  ultimately show ?thesis by linarith
qed

text \<open>
  The proportional estimate against exact arithmetic, for fewer than \<open>2^21\<close> chunks and
  fewer than \<open>2^31\<close> pages: the floor of the double product is the integer quotient of
  \<open>i * T\<close> by \<open>n\<close>, except that it can be one less where \<open>n\<close> divides \<open>i * T\<close>.
\<close>

lemma floor_proportional:
  assumes T: "0 < T" "T < 2 ^ 31" and n: "n \<le> 2 ^ 21" and i: "i < n"
  shows "(if int n dvd int i * T
          then \<lfloor>js_mul (js_div (of_nat i) (of_nat n)) (of_int T)\<rfloor> \<in> {int i * T div int n - 1, int i * T div int n}
          else \<lfloor>js_mul (js_div (of_nat i) (of_nat n)) (of_int T)\<rfloor> = int i * T div int n)"
proof (cases "i = 0")
  case True
  then show ?thesis
    by (simp add: js_mul_def js_div_def to_double_def)
next
  case False
  let ?x = "(of_nat i :: rat) / of_nat n"
  let ?q = "to_double ?x"
  let ?y = "?q * of_int T"
  let ?p = "to_double ?y"
  let ?v = "int i * T"
  let ?d = "?v div int n"
  let ?r = "?v mod int n"
  have npos: "0 < n" using i by simp
  have nr: "(0::rat) < of_nat n" using npos by simp
  have x_pos: "0 < ?x" using False npos by simp
  have x_less: "?x < 1" using i npos by simp
  have inv_n: "1 / 2097152 \<le> 1 / (of_nat n :: rat)"
  proof -
    have "(of_nat n :: rat) \<le> of_nat (2 ^ 21)"
      using n by (simp only: of_nat_le_iff)
    then have "(of_nat n :: rat) \<le> 2097152" by simp
    then show ?thesis using nr by (intro divide_left_mono) simp_all
  qed
  have x_low: "1 / of_nat n \<le> ?x"
  proof -
    have "(1::rat) \<le> of_nat i" using False by (cases i) simp_all
    then show ?thesis using nr by (intro divide_right_mono) simp_all
  qed
  have e1: "\<bar>?q - ?x\<bar> \<le> pow2 (- 54)"
    using to_double_error [of ?x 0] x_pos x_less by (simp add: pow2_def)
  have p54: "pow2 (- 54) = 1 / 18014398509481984"
    by (simp add: pow2_def)
  have q_pos: "0 < ?q"
    using e1 x_low inv_n p54 by linarith
  have q_less: "?q < 2"
    using e1 x_less p54 by linarith
  have Tr: "(0::rat) < of_int T" "(of_int T :: rat) < 2147483648"
  proof -
    show "(0::rat) < of_int T" using T(1) by simp
    have "(of_int T :: rat) < of_int (2 ^ 31)"
      using T(2) by (simp only: of_int_less_iff)
    then show "(of_int T :: rat) < 2147483648" by simp
  qed
  have y_pos: "0 < ?y" using q_pos Tr(1) by simp
  have "?y < 2 * 2147483648"
    using q_pos q_less Tr by (intro mult_strict_mono) simp_all
  then have y_less: "?y < pow2 32" by (simp add: pow2_def)
  have e2: "\<bar>?p - ?y\<bar> \<le> pow2 (- 22)"
    using to_double_error [OF y_pos y_less] by simp
  have p22: "pow2 (- 22) = 1 / 4194304"
    by (simp add: pow2_def)
  have "?y - ?x * of_int T = (?q - ?x) * of_int T"
    by (simp add: algebra_simps)
  then have "\<bar>?y - ?x * of_int T\<bar> = \<bar>?q - ?x\<bar> * \<bar>of_int T\<bar>"
    by (simp only: abs_mult)
  also have "\<dots> = \<bar>?q - ?x\<bar> * of_int T"
    using Tr(1) by simp
  also have "\<dots> \<le> pow2 (- 54) * 2147483648"
    using e1 Tr by (intro mult_mono) simp_all
  finally have e3: "\<bar>?y - ?x * of_int T\<bar> \<le> 1 / 8388608"
    by (simp add: p54)
  have err: "\<bar>?p - ?x * of_int T\<bar> < 1 / 2097152"
    using e2 e3 p22 by linarith
  have v: "?x * of_int T = of_int ?d + of_int ?r / of_nat n"
  proof -
    have "?v = ?d * int n + ?r" by simp
    then have "(of_int ?v :: rat) = of_int ?d * of_nat n + of_int ?r"
      by (metis of_int_add of_int_mult of_int_of_nat_eq)
    then show ?thesis using nr by (simp add: field_simps)
  qed
  have r: "0 \<le> ?r" "?r < int n" using npos by simp_all
  show ?thesis
  proof (cases "int n dvd ?v")
    case True
    then have "?r = 0" by (simp add: mod_eq_0_iff_dvd)
    then have "?x * of_int T = of_int ?d" using v by simp
    then have "of_int ?d - 1 \<le> ?p" "?p < of_int ?d + 1"
      using err by linarith+
    then have "of_int (?d - 1) \<le> ?p" "?p < of_int (?d + 1)"
      by simp_all
    then have "?d - 1 \<le> \<lfloor>?p\<rfloor>" "\<lfloor>?p\<rfloor> < ?d + 1"
      by (simp_all only: le_floor_iff floor_less_iff)
    then have "\<lfloor>?p\<rfloor> = ?d - 1 \<or> \<lfloor>?p\<rfloor> = ?d" by linarith
    then show ?thesis using True by (simp add: js_mul_def js_div_def)
  next
    case False
    then have "?r \<noteq> 0" by (simp add: mod_eq_0_iff_dvd)
    with r have r1: "1 \<le> ?r" "?r \<le> int n - 1" by linarith+
    have "(1::rat) \<le> of_int ?r" using r1(1) by (simp only: of_int_1_le_iff)
    then have lo: "1 / of_nat n \<le> of_int ?r / (of_nat n :: rat)"
      using nr by (intro divide_right_mono) simp_all
    have "(of_int ?r :: rat) \<le> of_int (int n - 1)"
      using r1(2) by (simp only: of_int_le_iff)
    then have "(of_int ?r :: rat) \<le> of_nat n - 1" by simp
    then have "of_int ?r / (of_nat n :: rat) \<le> (of_nat n - 1) / of_nat n"
      using nr by (intro divide_right_mono) simp_all
    also have "\<dots> = 1 - 1 / of_nat n"
      using nr by (simp add: field_simps)
    finally have hi: "of_int ?r / (of_nat n :: rat) \<le> 1 - 1 / of_nat n" .
    have "of_int ?d \<le> ?p" "?p < of_int ?d + 1"
      using err v lo hi inv_n by linarith+
    then have "\<lfloor>?p\<rfloor> = ?d" by (simp add: floor_unique)
    then show ?thesis using False by (simp add: js_mul_def js_div_def)
  qed
qed

lemma page_chunks_push_chunk:
  "page_chunks (push_chunk k c grouped) p =
     (if p = k then page_chunks grouped k @ [c] else page_chunks grouped p)"
  by (induction grouped) (auto simp: page_chunks_def)

lemma keys_push_chunk:
  "fst ` set (push_chunk k c grouped) = insert k (fst ` set grouped)"
proof (induction grouped)
  case Nil
  show ?case by simp
next
  case (Cons e grouped)
  obtain k' cs where e: "e = (k', cs)" by (cases e)
  show ?case
  proof (cases "k = k'")
    case True
    then show ?thesis by (simp add: e)
  next
    case False
    then show ?thesis using Cons.IH by (simp add: e insert_commute)
  qed
qed

lemma distinct_push_chunk:
  "distinct (map fst grouped) \<Longrightarrow> distinct (map fst (push_chunk k c grouped))"
  by (induction grouped) (auto simp: keys_push_chunk)

lemma mset_push_chunk:
  "mset (concat (map snd (push_chunk k c grouped))) = add_mset c (mset (concat (map snd grouped)))"
  by (induction grouped) auto

lemma nonempty_push_chunk:
  "[] \<notin> snd ` set grouped \<Longrightarrow> [] \<notin> snd ` set (push_chunk k c grouped)"
proof (induction grouped)
  case Nil
  show ?case by simp
next
  case (Cons e grouped)
  obtain k' cs where e: "e = (k', cs)" by (cases e)
  show ?case
  proof (cases "k = k'")
    case True
    then show ?thesis using Cons.prems by (simp add: e)
  next
    case False
    then show ?thesis using Cons by (simp add: e)
  qed
qed

lemma page_chunks_group_loop:
  "page_chunks (group_loop f grouped i cs) p =
     page_chunks grouped p @ map snd (filter (\<lambda>e. f (fst e) (snd e) = p) (enumerate i cs))"
  by (induction cs arbitrary: grouped i) (auto simp: page_chunks_push_chunk)

lemma distinct_group_loop:
  "distinct (map fst grouped) \<Longrightarrow> distinct (map fst (group_loop f grouped i cs))"
  by (induction cs arbitrary: grouped i) (auto simp: distinct_push_chunk)

lemma mset_group_loop:
  "mset (concat (map snd (group_loop f grouped i cs))) = mset (concat (map snd grouped)) + mset cs"
  by (induction cs arbitrary: grouped i) (auto simp: mset_push_chunk)

lemma nonempty_group_loop:
  "[] \<notin> snd ` set grouped \<Longrightarrow> [] \<notin> snd ` set (group_loop f grouped i cs)"
  by (induction cs arbitrary: grouped i) (simp_all add: nonempty_push_chunk)

lemma keys_group_loop:
  "fst ` set (group_loop f grouped i cs) =
     fst ` set grouped \<union> (\<lambda>e. f (fst e) (snd e)) ` set (enumerate i cs)"
  by (induction cs arbitrary: grouped i) (simp_all add: keys_push_chunk)

text \<open>
  Some doubles: the nearest ones to 0.9, to a third and to a tenth, and an integer, which
  is a double itself.
\<close>

lemma to_double_examples:
  "to_double (9 / 10) = 8106479329266893 / 9007199254740992"
  "to_double (1 / 3) = 6004799503160661 / 18014398509481984"
  "to_double (1 / 10) = 3602879701896397 / 36028797018963968"
  "to_double 5 = 5"
  by code_simp+

text \<open>The quotients and products of the doubles that the scenarios below meet.\<close>

lemma floor_49: "\<lfloor>js_mul (js_div 1 49) 49\<rfloor> = 0"
  by code_simp



lemma allPagesZero_ten: "allPagesZero ten_chunks"
  by (simp add: allPagesZero_def ten_chunks_def plain_chunk_def page_is_zero_def)


section \<open>Page resolution\<close>






text \<open>
  Against exact arithmetic: for fewer than \<open>2^21\<close> chunks and fewer than \<open>2^31\<close> pages
  the proportional estimate is the integer quotient of \<open>i * totalPages\<close> by the chunk
  count, plus 1 and clamped, wherever that division leaves a remainder.
\<close>

lemma estimated_page_exact:
  assumes "allPagesZero cs" and "i < length cs" and "0 < T" and "T < 2 ^ 31"
    and "length cs \<le> 2 ^ 21" and "\<not> int (length cs) dvd int i * T"
  shows "pageNum cs T i (cs ! i) = min (int i * T div int (length cs) + 1) T"
  using assms floor_proportional [of T "length cs" i] by (simp add: pageNum_def)

text \<open>
  Where the division leaves no remainder the rounding of the doubles can be visible in
  the result: \<open>1 / 49\<close> rounds down, its product with 49 stays below 1, and chunk 1 of 49
  lands on page 1 of 49, where the exact quotient would give page 2.
\<close>

lemma estimated_page_rounding:
  "length cs = 49 \<Longrightarrow> allPagesZero cs \<Longrightarrow> pageNum cs 49 1 c = 1 \<and> \<lfloor>(1::rat) / 49 * 49\<rfloor> + 1 = (2::int)"
  using floor_49 by (simp add: pageNum_def)

text \<open>
  Claim C4 as stated: every resolved page is at least 1. It fails on the metadata path: in
  a document where one chunk has page 5 and the next has none, the second chunk is
  resolved to page 0.
\<close>

theorem resolved_page_counterexample:
  "\<not> 1 \<le> pageNum two_chunks 5 1 (two_chunks ! 1)"
  by (simp add: pageNum_def two_chunks_def plain_chunk_def allPagesZero_def page_is_zero_def
      metadata_page_def)

text \<open>
  Claim C4, amended. A page estimated by either fallback is at least 1. On the metadata
  path the page is the chunk's own page, or 0 when it has none: it is at least 1 exactly
  when the chunk itself carries a page of at least 1.
\<close>

theorem resolved_page_lower_bound:
  assumes "i < length cs"
  shows "(allPagesZero cs \<longrightarrow> 1 \<le> pageNum cs T i (cs ! i))
       \<and> (\<not> allPagesZero cs \<longrightarrow>
            pageNum cs T i (cs ! i) = metadata_page (cs ! i)
          \<and> (1 \<le> pageNum cs T i (cs ! i) \<longleftrightarrow> (\<exists>p. page (cs ! i) = Some p \<and> 1 \<le> p)))"
proof (cases "allPagesZero cs")
  case True
  have "0 \<le> \<lfloor>js_mul (js_div (of_nat i) (of_nat (length cs))) (of_int T)\<rfloor>" if "0 < T"
    using that by (simp add: js_mul_nonneg js_div_nonneg)
  moreover have "0 \<le> \<lfloor>js_div (of_nat i) 3\<rfloor>"
    by (simp add: js_div_nonneg)
  ultimately show ?thesis
    using True by (simp add: pageNum_def)
next
  case False
  then show ?thesis
    by (cases "page (cs ! i)") (simp_all add: pageNum_def metadata_page_def)
qed

theorem resolved_page_lower_bound_witness:
  "9 < length ten_chunks \<and> 1 \<le> pageNum ten_chunks 5 9 (ten_chunks ! 9)"
  using resolved_page_lower_bound [of 9 ten_chunks 5] allPagesZero_ten
  by (simp add: ten_chunks_def)

section \<open>The page groups are a partition\<close>

lemma far_groups:
  "chunksByPage far_chunks T
     = [(2, [plain_chunk ''a'' (Some 2)]), (10, [plain_chunk ''b'' (Some 10)])]"
  by (simp add: chunksByPage_def far_chunks_def pageNum_def allPagesZero_def page_is_zero_def
      plain_chunk_def metadata_page_def)

text \<open>
  Claim C9. The groups partition the chunks: no key occurs twice, the chunks of all
  groups together are the chunks of the document, each as often as it occurs there, the
  group of a page holds, in order, exactly the chunks at the indices resolved to that
  page, the keys are the pages some chunk is resolved to, and no group is empty. The keys
  need not be contiguous: a document can have the groups 2 and 10 only.
\<close>

theorem page_groups_partition:
  "distinct (map fst (chunksByPage cs T))
   \<and> mset (concat (map snd (chunksByPage cs T))) = mset cs
   \<and> (\<forall>p. page_chunks (chunksByPage cs T) p
          = map snd (filter (\<lambda>e. pageNum cs T (fst e) (snd e) = p) (enumerate 0 cs)))
   \<and> fst ` set (chunksByPage cs T)
       = (\<lambda>e. pageNum cs T (fst e) (snd e)) ` set (enumerate 0 cs)
   \<and> [] \<notin> snd ` set (chunksByPage cs T)
   \<and> map fst (chunksByPage far_chunks T) = [2, 10]"
proof -
  have "distinct (map fst (chunksByPage cs T))"
    unfolding chunksByPage_def by (rule distinct_group_loop) simp
  moreover have "mset (concat (map snd (chunksByPage cs T))) = mset cs"
    by (simp add: chunksByPage_def mset_group_loop)
  moreover have "page_chunks (chunksByPage cs T) p
      = map snd (filter (\<lambda>e. pageNum cs T (fst e) (snd e) = p) (enumerate 0 cs))" for p
    by (simp add: chunksByPage_def page_chunks_group_loop) (simp add: page_chunks_def)
  moreover have "fst ` set (chunksByPage cs T)
      = (\<lambda>e. pageNum cs T (fst e) (snd e)) ` set (enumerate 0 cs)"
    by (simp add: chunksByPage_def keys_group_loop)
  moreover have "[] \<notin> snd ` set (chunksByPage cs T)"
    unfolding chunksByPage_def by (rule nonempty_group_loop) simp
  moreover have "map fst (chunksByPage far_chunks T) = [2, 10]"
    by (simp add: far_groups)
  ultimately show ?thesis by blast
qed

theorem page_groups_partition_witness:
  "distinct (map fst (chunksByPage two_chunks 5))
   \<and> mset (concat (map snd (chunksByPage two_chunks 5))) = mset two_chunks"
  using page_groups_partition [of two_chunks 5] by blast

section \<open>Page bounds\<close>

lemmas prim_defs = log_def set_suppress_def setTimeout_def clearTimeout_def onPdfPageChange_def
  scrollIntoView_def



lemma page_observer_cleanup [simp]:
  "pdfCurrentPage (observer_cleanup st) = pdfCurrentPage st"
  "chunks (observer_cleanup st) = chunks st"
  "documentTotalPages (observer_cleanup st) = documentTotalPages st"
  "maxPdfPage (observer_cleanup st) = maxPdfPage st"
  by (simp_all add: observer_cleanup_def clearTimeout_def split: option.splits)

lemma page_maxPdfPage_effect [simp]:
  "pdfCurrentPage (maxPdfPage_effect st) = pdfCurrentPage st"
  "chunks (maxPdfPage_effect st) = chunks st"
  "documentTotalPages (maxPdfPage_effect st) = documentTotalPages st"
  by (simp_all add: maxPdfPage_effect_def Let_def)

lemma page_page_effect [simp]:
  "pdfCurrentPage (page_effect st) = pdfCurrentPage st"
  "chunks (page_effect st) = chunks st"
  "documentTotalPages (page_effect st) = documentTotalPages st"
  "maxPdfPage (page_effect st) = maxPdfPage st"
  by (simp_all add: page_effect_def prim_defs split: list.splits)

lemma page_run_effects [simp]:
  "pdfCurrentPage (run_effects before st) = pdfCurrentPage st"
  "chunks (run_effects before st) = chunks st"
  "documentTotalPages (run_effects before st) = documentTotalPages st"
  by (simp_all add: run_effects_def Let_def)





lemma page_navigate_to [simp]: "pdfCurrentPage (navigate_to target st) = target"
  by (simp add: navigate_to_def prim_defs)




lemma chunksByPage_Nil [simp]: "chunksByPage [] T = []"
  by (simp add: chunksByPage_def)





section \<open>The page count arriving after the chunks\<close>

lemma nine_groups_unknown:
  "chunksByPage nine_chunks 0 =
     [(1, map (\<lambda>i. plain_chunk i None) [''a'', ''b'', ''c'']),
      (2, map (\<lambda>i. plain_chunk i None) [''d'', ''e'', ''f'']),
      (3, map (\<lambda>i. plain_chunk i None) [''g'', ''h'', ''i''])]"
  by code_simp

lemma nine_chunks_nonempty: "nine_chunks \<noteq> []"
  by (simp add: nine_chunks_def)

lemma maxPdfPage_run_effects:
  "maxPdfPage (run_effects before st) =
     (if chunks st \<noteq> chunks before \<or> documentTotalPages st \<noteq> documentTotalPages before
      then maxPdfPage (maxPdfPage_effect (observer_cleanup st)) else maxPdfPage st)"
  by (simp add: run_effects_def Let_def)

lemma maxPdfPage_effect_cleanup:
  "maxPdfPage (maxPdfPage_effect (observer_cleanup st)) = maxPdfPage (maxPdfPage_effect st)"
  by (simp add: maxPdfPage_effect_def Let_def groups_def)

lemma page_type_page: "pdfCurrentPage (type_page v st) = page_input st v"
  by (simp add: type_page_def handlePageInput_def prim_defs)

lemma nine_loaded_facts:
  "chunks (setChunks nine_chunks initial_viewer) = nine_chunks"
  "documentTotalPages (setChunks nine_chunks initial_viewer) = 0"
  "maxPdfPage (setChunks nine_chunks initial_viewer) = 3"
  by (simp_all add: setChunks_def maxPdfPage_run_effects maxPdfPage_effect_cleanup
      maxPdfPage_effect_def Let_def groups_def nine_groups_unknown nine_chunks_nonempty
      initial_viewer_def)

lemma nine_viewer_facts:
  "chunks nine_viewer = nine_chunks"
  "documentTotalPages nine_viewer = 0"
  "maxPdfPage nine_viewer = 3"
  "pdfCurrentPage nine_viewer = 3"
  by (simp_all add: nine_viewer_def page_type_page page_input_def totalPages_def
      nine_loaded_facts type_page_def maxPdfPage_run_effects handlePageInput_def prim_defs)

lemma resolution_keeps_page:
  "pdfCurrentPage (setDocumentTotalPages n st) = pdfCurrentPage st"
  by (simp add: setDocumentTotalPages_def)

lemma resolution_groups:
  "groups (setDocumentTotalPages n st) = chunksByPage (chunks st) n"
  by (simp add: setDocumentTotalPages_def groups_def)

lemma resolution_bound:
  "0 < n \<Longrightarrow> totalPages (setDocumentTotalPages n st) = n"
  by (simp add: setDocumentTotalPages_def totalPages_def)

text \<open>
  Claim C5 as stated: when the page count arrives, a current page beyond the corrected
  bound is clamped. With nine chunks on the estimated pages 1 to 3 and the viewer on page
  3, a page count of 2 corrects the bound to 2 and leaves the viewer on page 3: no handler
  or effect of the viewer writes the current page when the count changes.
\<close>

theorem total_pages_resolution_counterexample:
  "totalPages nine_viewer = 3 \<and> pdfCurrentPage nine_viewer = 3
   \<and> totalPages (setDocumentTotalPages 2 nine_viewer) = 2
   \<and> pdfCurrentPage (setDocumentTotalPages 2 nine_viewer) = 3"
proof -
  have "totalPages nine_viewer = 3"
    by (simp add: totalPages_def nine_viewer_facts)
  moreover have "totalPages (setDocumentTotalPages 2 nine_viewer) = 2"
    by (simp add: resolution_bound)
  ultimately show ?thesis
    by (simp add: resolution_keeps_page nine_viewer_facts)
qed

text \<open>
  Claim C5, amended. When the declared page count arrives the groups are rebuilt with it
  and, if it is positive, it becomes the bound, whether the chunks were loaded before or
  after it. The current page is not changed by that; page numbers typed afterwards are
  clamped to the corrected bound.
\<close>

theorem total_pages_resolution:
  "documentTotalPages (setDocumentTotalPages n st) = n
   \<and> groups (setDocumentTotalPages n st) = chunksByPage (chunks st) n
   \<and> pdfCurrentPage (setDocumentTotalPages n st) = pdfCurrentPage st
   \<and> (0 < n \<longrightarrow>
        totalPages (setDocumentTotalPages n st) = n
      \<and> totalPages (setDocumentTotalPages n (setChunks cs st)) = n
      \<and> totalPages (setChunks cs (setDocumentTotalPages n st)) = n
      \<and> groups (setDocumentTotalPages n (setChunks cs st))
          = groups (setChunks cs (setDocumentTotalPages n st))
      \<and> page_input (setDocumentTotalPages n st) v \<le> n)"
proof -
  have either_order: "groups (setDocumentTotalPages n (setChunks cs st))
      = groups (setChunks cs (setDocumentTotalPages n st))"
    by (simp add: setDocumentTotalPages_def setChunks_def groups_def)
  have after_chunks: "totalPages (setChunks cs (setDocumentTotalPages n st)) = n" if "0 < n"
    using that by (simp add: setDocumentTotalPages_def setChunks_def totalPages_def)
  have typed: "page_input (setDocumentTotalPages n st) v \<le> n" if "0 < n"
    using that resolution_bound [of n st] by (simp add: page_input_def)
  have "documentTotalPages (setDocumentTotalPages n st) = n"
    by (simp add: setDocumentTotalPages_def)
  then show ?thesis
    using resolution_groups [of n st] resolution_keeps_page [of n st] resolution_bound [of n]
      either_order after_chunks typed
    by simp
qed

theorem total_pages_resolution_witness:
  "(0::int) < 2 \<and> totalPages (setDocumentTotalPages 2 nine_viewer) = 2
   \<and> pdfCurrentPage (setDocumentTotalPages 2 nine_viewer) = pdfCurrentPage nine_viewer"
  using total_pages_resolution [of 2 nine_viewer "[]" 0] by simp

section \<open>Search\<close>


lemma search_fields_observer_cleanup [simp]:
  "searchResults (observer_cleanup st) = searchResults st"
  "currentSearchIndex (observer_cleanup st) = currentSearchIndex st"
  "lastSearchQuery (observer_cleanup st) = lastSearchQuery st"
  "isSearching (observer_cleanup st) = isSearching st"
  by (simp_all add: observer_cleanup_def clearTimeout_def split: option.splits)

lemma search_fields_maxPdfPage_effect [simp]:
  "searchResults (maxPdfPage_effect st) = searchResults st"
  "currentSearchIndex (maxPdfPage_effect st) = currentSearchIndex st"
  "lastSearchQuery (maxPdfPage_effect st) = lastSearchQuery st"
  "isSearching (maxPdfPage_effect st) = isSearching st"
  by (simp_all add: maxPdfPage_effect_def Let_def)

lemma search_fields_page_effect [simp]:
  "searchResults (page_effect st) = searchResults st"
  "currentSearchIndex (page_effect st) = currentSearchIndex st"
  "lastSearchQuery (page_effect st) = lastSearchQuery st"
  "isSearching (page_effect st) = isSearching st"
  by (simp_all add: page_effect_def prim_defs split: list.splits)

lemma search_fields_run_effects [simp]:
  "searchResults (run_effects before st) = searchResults st"
  "currentSearchIndex (run_effects before st) = currentSearchIndex st"
  "lastSearchQuery (run_effects before st) = lastSearchQuery st"
  "isSearching (run_effects before st) = isSearching st"
  by (simp_all add: run_effects_def Let_def)

lemma navigateToSearchResult_fields [simp]:
  "searchResults (navigateToSearchResult m st) = searchResults st"
  "currentSearchIndex (navigateToSearchResult m st) = currentSearchIndex st"
  "lastSearchQuery (navigateToSearchResult m st) = lastSearchQuery st"
  "isSearching (navigateToSearchResult m st) = isSearching st"
  "pdfCurrentPage (navigateToSearchResult m st) = targetPage st m"
  "suppressObserver (navigateToSearchResult m st)"
  "trace (navigateToSearchResult m st) =
     trace st @ [SuppressObserver True, PageChange (targetPage st m),
                 SetTimeout (ScrollToMatch (chunk_id m)) 400]"
  by (simp_all add: navigateToSearchResult_def prim_defs)

lemma targetPage_search_update [simp]:
  "targetPage (st\<lparr>searchResults := r, currentSearchIndex := i, lastSearchQuery := q,
                   isSearching := b\<rparr>) m = targetPage st m"
  "targetPage (st\<lparr>currentSearchIndex := i, isSearching := b\<rparr>) m = targetPage st m"
  by (simp_all add: targetPage_def groups_def)

lemma js_rem_mod: "0 \<le> a \<Longrightarrow> js_rem a b = a mod b"
  by (simp add: js_rem_def)


text \<open>The cursor stays an index of a non-empty match list.\<close>

lemma cursor_in_range:
  assumes "searchResults st \<noteq> [] \<longrightarrow>
      0 \<le> currentSearchIndex st \<and> currentSearchIndex st < int (length (searchResults st))"
  shows "searchResults (handleSearchSubmit st) \<noteq> [] \<longrightarrow>
      0 \<le> currentSearchIndex (handleSearchSubmit st)
      \<and> currentSearchIndex (handleSearchSubmit st) < int (length (searchResults (handleSearchSubmit st)))"
proof -
  let ?query = "toLowerCase (trim (searchText st))"
  consider (skip) "?query = [] \<or> chunks st = []"
    | (new) "?query \<noteq> []" "chunks st \<noteq> []" "?query \<noteq> lastSearchQuery st"
    | (same) "?query \<noteq> []" "chunks st \<noteq> []" "?query = lastSearchQuery st"
    by blast
  then show ?thesis
  proof cases
    case skip
    then have "handleSearchSubmit st = st"
      by (auto simp: handleSearchSubmit_def Let_def)
    then show ?thesis using assms by simp
  next
    case new
    then show ?thesis
      by (simp add: handleSearchSubmit_def Let_def split: list.splits)
  next
    case same
    show ?thesis
    proof (cases "searchResults st = []")
      case True
      then show ?thesis using same by (simp add: handleSearchSubmit_def Let_def)
    next
      case False
      then have "0 \<le> currentSearchIndex st + 1" "0 < int (length (searchResults st))"
        using assms by simp_all
      then show ?thesis
        using same False by (simp add: handleSearchSubmit_def Let_def js_rem_mod)
    qed
  qed
qed









section \<open>The external window is reused or reopened\<close>

lemma windows_opened_open_viewer: "windows_opened (snd (open_viewer env d p ref)) = 1"
  by (simp add: open_viewer_def windows_opened_def split: option.splits)

lemma open_viewer_success: "open_result env = Some w' \<Longrightarrow> fst (open_viewer env d p ref) = Some w'"
  by (simp add: open_viewer_def)

lemma open_viewer_blocked: "open_result env = None \<Longrightarrow> Confirm \<in> set (snd (open_viewer env d p ref))"
  by (simp add: open_viewer_def)

text \<open>
  Claim C10. For a reference click that names a file and a positive page: if the stored
  window is open when the click arrives and the message can be posted, no window is
  opened, that window gets exactly one \<^verbatim>\<open>changePage\<close> message for the page and is then
  focused, and the reference is kept. If no window is stored or the stored one is closed,
  \<^verbatim>\<open>window.open\<close> is called exactly once; the window it returns becomes the stored
  reference, and if it returns none the user is asked whether to open the viewer in place.
\<close>

theorem external_window_reuse:
  assumes request: "ref_page d = Some p" "0 < p" "filename d \<noteq> []"
  shows "(ref = Some w \<and> \<not> closed env w \<and> \<not> postMessage_throws env \<longrightarrow>
            handleReferenceClick env d ref
              = (Some w, [PostMessage w (changePage d p), Focus w, CheckDelivered w])
          \<and> windows_opened (snd (handleReferenceClick env d ref)) = 0
          \<and> messages_to w (snd (handleReferenceClick env d ref)) = [changePage d p]
          \<and> msg_page (changePage d p) = p)
       \<and> (ref = None \<or> (ref = Some w \<and> closed env w) \<longrightarrow>
            windows_opened (snd (handleReferenceClick env d ref)) = 1
          \<and> (\<forall>w'. open_result env = Some w' \<longrightarrow> fst (handleReferenceClick env d ref) = Some w')
          \<and> (open_result env = None \<longrightarrow> Confirm \<in> set (snd (handleReferenceClick env d ref))))"
proof -
  have live: "handleReferenceClick env d ref
      = (Some w, [PostMessage w (changePage d p), Focus w, CheckDelivered w])"
    if "ref = Some w" "\<not> closed env w" "\<not> postMessage_throws env"
    using that request by (simp add: handleReferenceClick_def)
  have gone: "handleReferenceClick env d ref = open_viewer env d p ref"
    if "ref = None \<or> (ref = Some w \<and> closed env w)"
    using that request by (auto simp: handleReferenceClick_def)
  have "windows_opened [PostMessage w (changePage d p), Focus w, CheckDelivered w] = 0"
    by (simp add: windows_opened_def)
  moreover have "messages_to w [PostMessage w (changePage d p), Focus w, CheckDelivered w]
      = [changePage d p]"
    by (simp add: messages_to_def)
  moreover have "msg_page (changePage d p) = p"
    by (simp add: changePage_def)
  ultimately show ?thesis
    using live gone windows_opened_open_viewer [of env d p ref]
      open_viewer_success [of env _ d p ref] open_viewer_blocked [of env d p ref]
    by auto
qed

theorem external_window_reuse_witness:
  "ref_page page7_click = Some 7 \<and> (0::int) < 7 \<and> filename page7_click \<noteq> []
   \<and> \<not> closed open_browser 1 \<and> \<not> postMessage_throws open_browser
   \<and> handleReferenceClick open_browser page7_click (Some 1)
       = (Some 1, [PostMessage 1 (changePage page7_click 7), Focus 1, CheckDelivered 1])
   \<and> closed open_browser 3
   \<and> fst (handleReferenceClick open_browser page7_click (Some 3)) = Some 2
   \<and> windows_opened (snd (handleReferenceClick open_browser page7_click (Some 3))) = 1"
proof -
  have facts: "ref_page page7_click = Some 7" "filename page7_click \<noteq> []"
    "\<not> closed open_browser 1" "\<not> postMessage_throws open_browser" "closed open_browser 3"
    "open_result open_browser = Some 2"
    by (simp_all add: page7_click_def open_browser_def)
  show ?thesis
    using external_window_reuse [of page7_click 7 "Some 1" 1 open_browser]
      external_window_reuse [of page7_click 7 "Some 3" 3 open_browser] facts
    by simp
qed

section \<open>The suppression window\<close>













lemma clock_simps [simp]:
  "clock (log e st) = clock st"
  "clock (set_suppress b st) = clock st"
  "clock (onPdfPageChange p st) = clock st"
  "clock (scrollIntoView cid st) = clock st"
  "clock (setTimeout a d st) = clock st"
  "clock (observer_cleanup st) = clock st"
  "clock (maxPdfPage_effect st) = clock st"
  by (simp_all add: prim_defs observer_cleanup_def maxPdfPage_effect_def Let_def split: option.splits)




lemma clock_scrollToMatch [simp]: "clock (scrollToMatch cid st) = clock st"
  by (simp add: scrollToMatch_def set_suppress_def)























end
